theory Spec2Isabelle
  imports Main "HOL-Library.AList"
begin

section \<open>Strings and the regular expressions of script.js\<close>

text \<open>
  A JavaScript string is modelled as a \<^typ>\<open>string\<close>, one \<^typ>\<open>char\<close> per code unit
  (code units up to U+00FF). The code below only tells digits, white space, \<open>@\<close>, \<open>.\<close>
  and the phone punctuation apart from other characters.
\<close>

definition isDigit :: "char \<Rightarrow> bool" where
  \<comment> \<open>the class \<open>\d\<close> (no unicode flag): the ten ASCII digits\<close>
  "isDigit c = (c \<in> set ''0123456789'')"

definition isWhiteSpace :: "char \<Rightarrow> bool" where
  \<comment> \<open>the class \<open>\s\<close>, also what \<open>String.prototype.trim\<close> strips: TAB, LF, VT, FF, CR,
      SPACE and NO-BREAK SPACE among the code units up to U+00FF\<close>
  "isWhiteSpace c =
     (c \<in> set [CHR 0x09, CHR 0x0A, CHR 0x0B, CHR 0x0C, CHR 0x0D, CHR 0x20, CHR 0xA0])"

definition trim :: "string \<Rightarrow> string" where
  "trim s = rev (dropWhile isWhiteSpace (rev (dropWhile isWhiteSpace s)))"

definition stripNonDigits :: "string \<Rightarrow> string" where
  \<comment> \<open>\<open>value.replace(/\D/g, '')\<close>\<close>
  "stripNonDigits v = filter isDigit v"

definition phoneGroups :: "string \<Rightarrow> (string \<times> string \<times> string) option" where
  \<comment> \<open>\<open>phone.match(/^(\d{0,3})(\d{0,3})(\d{0,4})$/)\<close>: the three groups are greedy, so
      on a run of at most ten digits the first takes up to three, the second up to three
      of what is left, and the third the rest; anything else (a character that is no
      digit, or more than ten digits) does not match and \<open>match\<close> is \<open>null\<close>\<close>
  "phoneGroups p =
     (if list_all isDigit p \<and> length p \<le> 10
      then Some (take 3 p, take 3 (drop 3 p), drop 6 p)
      else None)"

definition formatPhoneNumber :: "string \<Rightarrow> string" where
  "formatPhoneNumber v =
     (let phone = stripNonDigits v in
      case phoneGroups phone of
        Some (m1, m2, m3) \<Rightarrow>
          if m2 = [] then m1
          else if m3 = [] then ''('' @ m1 @ '') '' @ m2
          else ''('' @ m1 @ '') '' @ m2 @ ''-'' @ m3
      | None \<Rightarrow> v)"

definition isValidEmail :: "string \<Rightarrow> bool" where
  \<comment> \<open>\<open>/^[^\s@]+@[^\s@]+\.[^\s@]+$/.test(email)\<close>: no part may hold an \<open>@\<close>, so the
      string splits at its first \<open>@\<close> into a non-empty local part and a rest; the rest
      must have a dot that is neither its first nor its last character; and no character
      is white space or a second \<open>@\<close>\<close>
  "isValidEmail email =
     (let ok = (\<lambda>c. \<not> isWhiteSpace c \<and> c \<noteq> CHR ''@'');
          local = takeWhile (\<lambda>c. c \<noteq> CHR ''@'') email;
          rest = dropWhile (\<lambda>c. c \<noteq> CHR ''@'') email
      in case rest of
           [] \<Rightarrow> False
         | _ # host \<Rightarrow>
             local \<noteq> [] \<and> list_all ok local \<and> list_all ok host \<and>
             list_ex (\<lambda>c. c = CHR ''.'') (butlast (tl host)))"

definition phoneRegex :: "string \<Rightarrow> bool" where
  \<comment> \<open>\<open>/^\(\d{3}\) \d{3}-\d{4}$/.test(value)\<close>\<close>
  "phoneRegex v =
     (length v = 14 \<and>
      v ! 0 = CHR ''('' \<and> list_all isDigit (take 3 (drop 1 v)) \<and>
      v ! 4 = CHR '')'' \<and> v ! 5 = CHR '' '' \<and> list_all isDigit (take 3 (drop 6 v)) \<and>
      v ! 9 = CHR ''-'' \<and> list_all isDigit (take 4 (drop 10 v)))"

definition renderGroups :: "string \<Rightarrow> string" where
  \<comment> \<open>the three renderings of a run of digits, by its length; used to state what
      \<open>formatPhoneNumber\<close> returns\<close>
  "renderGroups d =
     (if length d \<le> 3 then d
      else if length d \<le> 6 then ''('' @ take 3 d @ '') '' @ drop 3 d
      else ''('' @ take 3 d @ '') '' @ take 3 (drop 3 d) @ ''-'' @ drop 6 d)"

section \<open>The page: form controls, the form's element tree, and the handler's fields\<close>

text \<open>
  A form control (\<open>input\<close>, \<open>select\<close> or \<open>textarea\<close>) is named by a number, its
  identity as a DOM node. The properties the handler reads or writes are a record per
  control; the shape of the form is a tree whose leaves are the controls and the
  \<open>.field-error\<close> elements and whose inner nodes are all other elements. The markup of
  the page is not part of script.js: the tree and the controls are parameters.
\<close>

record control =
  name :: string
  type :: string
  required :: bool
  "value" :: string
  resetValue :: string
    \<comment> \<open>what \<open>value\<close> is after a reset of the form, for a control whose value a reset
        changes: the \<open>value\<close> attribute of an input (its \<open>defaultValue\<close>) after value
        sanitization, the empty string for a file input, the default text of a textarea,
        the value of the option that the default selection of a select picks\<close>
  checked :: bool
  defaultChecked :: bool
  errorClass :: bool  \<comment> \<open>\<open>classList\<close> holds \<open>error\<close>\<close>

datatype node =
    Control nat           \<comment> \<open>a form control, by its identity\<close>
  | FieldError string     \<comment> \<open>an element of class \<open>field-error\<close>, with its text\<close>
  | Element "node list"   \<comment> \<open>any other element, with its children in order\<close>

record button =
  disabled :: bool
  innerHTML :: string

datatype jsval = Str string | Arr "string list"

type_synonym jsobject = "(string \<times> jsval) list"

record page =
  form :: node                          \<comment> \<open>\<open>this.form\<close>: the form element\<close>
  ctl :: "nat \<Rightarrow> control"               \<comment> \<open>the properties of each control\<close>
  submitButton :: "button option"       \<comment> \<open>\<open>this.submitButton\<close>; \<open>None\<close> when the form has none\<close>
  originalButtonText :: string          \<comment> \<open>\<open>this.originalButtonText\<close>\<close>
  notifications :: "(string \<times> string) list"
                                        \<comment> \<open>notification elements appended to the body:
                                            message and type\<close>
  successModal :: "bool option"         \<comment> \<open>\<open>#successModal\<close>: \<open>None\<close> when absent, else whether
                                            its class list holds \<open>active\<close>\<close>
  consoleErrors :: nat                  \<comment> \<open>calls of \<open>console.error\<close>\<close>
  apiCalls :: "jsobject list"           \<comment> \<open>the arguments of the calls of \<open>submitToAPI\<close>\<close>
  pending :: nat                        \<comment> \<open>activations of \<open>handleSubmit\<close> suspended at
                                            \<open>await this.submitToAPI(data)\<close>\<close>

fun controlIds :: "node \<Rightarrow> nat list" where
  \<comment> \<open>the controls below a node, in document order\<close>
  "controlIds (Control i) = [i]"
| "controlIds (FieldError m) = []"
| "controlIds (Element cs) = concat (map controlIds cs)"

fun removeFirst :: "node list \<Rightarrow> node list option" where
  \<comment> \<open>\<open>querySelector('.field-error')\<close> on the parent of these children, followed by
      \<open>remove()\<close>: the first \<open>.field-error\<close> descendant in document order is taken out;
      \<open>None\<close> when there is none\<close>
  "removeFirst [] = None"
| "removeFirst (FieldError m # ns) = Some ns"
| "removeFirst (Control i # ns) = map_option ((#) (Control i)) (removeFirst ns)"
| "removeFirst (Element cs # ns) =
     (case removeFirst cs of
        Some cs' \<Rightarrow> Some (Element cs' # ns)
      | None \<Rightarrow> map_option ((#) (Element cs)) (removeFirst ns))"

fun atParent :: "nat \<Rightarrow> (node list \<Rightarrow> node list) \<Rightarrow> node \<Rightarrow> node" where
  \<comment> \<open>\<open>field.parentNode\<close>: the element that has control \<open>i\<close> among its children gets its
      children rewritten by \<open>g\<close>\<close>
  "atParent i g (Element cs) =
     (if Control i \<in> set cs then Element (g cs) else Element (map (atParent i g) cs))"
| "atParent i g n = n"

section \<open>FormHandler\<close>

definition FormHandler_constructor :: "page \<Rightarrow> page" where
  \<comment> \<open>\<open>this.originalButtonText = this.submitButton?.innerHTML\<close>; without a button the
      field is \<open>undefined\<close> and never read\<close>
  "FormHandler_constructor p =
     p\<lparr>originalButtonText := (case submitButton p of None \<Rightarrow> [] | Some b \<Rightarrow> innerHTML b)\<rparr>"

definition showFieldError :: "nat \<Rightarrow> string \<Rightarrow> page \<Rightarrow> page" where
  "showFieldError i message s =
     s\<lparr>ctl := (ctl s)(i := (ctl s i)\<lparr>errorClass := True\<rparr>),
       form := atParent i (\<lambda>cs. cs @ [FieldError message]) (form s)\<rparr>"

definition clearFieldError :: "nat \<Rightarrow> page \<Rightarrow> page" where
  "clearFieldError i s =
     s\<lparr>ctl := (ctl s)(i := (ctl s i)\<lparr>errorClass := False\<rparr>),
       form := atParent i (\<lambda>cs. case removeFirst cs of Some cs' \<Rightarrow> cs' | None \<Rightarrow> cs) (form s)\<rparr>"

definition validateField :: "nat \<Rightarrow> page \<Rightarrow> bool \<times> page" where
  "validateField i s =
     (let field = ctl s i;
          v = trim (value field);
          s1 = clearFieldError i s;
          (isValid1, errorMessage1) =
            (if required field \<and> v = [] then (False, ''This field is required'')
             else (True, []));
          (isValid2, errorMessage2) =
            (if type field = ''email'' \<and> v \<noteq> [] \<and> \<not> isValidEmail v
             then (False, ''Please enter a valid email address'')
             else (isValid1, errorMessage1));
          (isValid3, errorMessage3) =
            (if name field = ''phone'' \<and> v \<noteq> [] \<and> \<not> phoneRegex v
             then (False, ''Please enter a valid phone number'')
             else (isValid2, errorMessage2))
      in if \<not> isValid3 then (isValid3, showFieldError i errorMessage3 s1)
         else (isValid3, s1))"

definition requiredFields :: "page \<Rightarrow> nat list" where
  \<comment> \<open>\<open>this.form.querySelectorAll('input[required], select[required], textarea[required]')\<close>\<close>
  "requiredFields s = filter (\<lambda>i. required (ctl s i)) (controlIds (form s))"

definition validateForm :: "page \<Rightarrow> bool \<times> page" where
  "validateForm s =
     fold (\<lambda>i (isValid, st).
             let (ok, st') = validateField i st
             in (if \<not> ok then False else isValid, st'))
          (requiredFields s) (True, s)"

definition processingLabel :: string where
  \<comment> \<open>the busy label; the markup of the spinner icon before the text is left out\<close>
  "processingLabel = ''<span>Processing...</span>''"

definition setLoadingState :: "bool \<Rightarrow> page \<Rightarrow> page" where
  "setLoadingState isLoading s =
     (case submitButton s of
        None \<Rightarrow> s
      | Some b \<Rightarrow>
          if isLoading
          then s\<lparr>submitButton := Some (b\<lparr>disabled := True, innerHTML := processingLabel\<rparr>)\<rparr>
          else s\<lparr>submitButton := Some (b\<lparr>disabled := False, innerHTML := originalButtonText s\<rparr>)\<rparr>)"

definition showNotification :: "string \<Rightarrow> string \<Rightarrow> page \<Rightarrow> page" where
  \<comment> \<open>the element is appended to the body; the timers that fade it in and take it away
      after five seconds are not modelled\<close>
  "showNotification message kind s = s\<lparr>notifications := notifications s @ [(message, kind)]\<rparr>"

definition showSuccessModal :: "page \<Rightarrow> page" where
  "showSuccessModal s =
     (case successModal s of None \<Rightarrow> s | Some a \<Rightarrow> s\<lparr>successModal := Some True\<rparr>)"

definition keepsValueOnReset :: "string \<Rightarrow> bool" where
  \<comment> \<open>the input types whose \<open>value\<close> property reports the \<open>value\<close> attribute itself (for
      a checkbox or radio button \<open>on\<close> when there is none): a reset writes no attribute,
      so it leaves what these controls report as their value\<close>
  "keepsValueOnReset t =
     (t \<in> set [''checkbox'', ''radio'', ''hidden'', ''submit'', ''image'', ''reset'',
                ''button''])"

definition formReset :: "page \<Rightarrow> page" where
  \<comment> \<open>\<open>this.form.reset()\<close>: every control below the form element takes its reset value,
      but for the types that keep what they report, and its default checkedness
      (the checkedness means something for an input only). Controls attached to the form
      from outside its element, by a \<open>form\<close> attribute, are not modelled\<close>
  "formReset s =
     s\<lparr>ctl := (\<lambda>i. if i \<in> set (controlIds (form s))
                    then (ctl s i)\<lparr>value := (if keepsValueOnReset (type (ctl s i))
                                             then value (ctl s i)
                                             else resetValue (ctl s i)),
                                   checked := defaultChecked (ctl s i)\<rparr>
                    else ctl s i)\<rparr>"

definition formEntries :: "page \<Rightarrow> (string \<times> string) list" where
  \<comment> \<open>\<open>new FormData(this.form).entries()\<close>: name and value of each named control in
      document order, a checkbox or radio button only when checked. Disabled controls,
      file inputs and selects with several selected options are not modelled\<close>
  "formEntries s =
     map (\<lambda>i. (name (ctl s i), value (ctl s i)))
       (filter (\<lambda>i. name (ctl s i) \<noteq> [] \<and>
                     (if type (ctl s i) \<in> set [''checkbox'', ''radio'']
                      then checked (ctl s i) else True))
          (controlIds (form s)))"

definition collectData :: "page \<Rightarrow> jsobject" where
  \<comment> \<open>\<open>Object.fromEntries\<close> (a later entry of the same name overwrites), then
      \<open>data.creditIssues\<close> is set to the values of the checked checkboxes\<close>
  "collectData s =
     (let data = fold (\<lambda>(k, v). AList.update k (Str v)) (formEntries s) [];
          checkboxes = filter (\<lambda>i. type (ctl s i) = ''checkbox'' \<and> checked (ctl s i))
                         (controlIds (form s));
          creditIssues = map (\<lambda>i. value (ctl s i)) checkboxes
      in AList.update ''creditIssues'' (Arr creditIssues) data)"

datatype outcome =
    Fulfilled   \<comment> \<open>the promise of \<open>submitToAPI\<close> resolves\<close>
  | Rejected    \<comment> \<open>it rejects: any error thrown inside the async \<open>submitToAPI\<close>\<close>

text \<open>
  \<open>handleSubmit\<close> is an async function with one \<open>await\<close>. \<open>handleSubmit\<close> below is its
  synchronous part, from the submit event to the early \<open>return\<close> or to the suspension at
  \<open>await this.submitToAPI(data)\<close>; \<open>handleSubmit_resume\<close> is the rest, run when the
  awaited promise settles: the end of the \<open>try\<close> block or the \<open>catch\<close> block, then
  \<open>finally\<close>.
\<close>

definition handleSubmit :: "page \<Rightarrow> page" where
  "handleSubmit s =
     (let (isValid, s1) = validateForm s
      in if \<not> isValid then showNotification ''Please fix the errors above'' ''error'' s1
         else
           let s2 = setLoadingState True s1;
               data = collectData s2
           in s2\<lparr>apiCalls := apiCalls s2 @ [data], pending := Suc (pending s2)\<rparr>)"

definition handleSubmit_resume :: "outcome \<Rightarrow> page \<Rightarrow> page" where
  "handleSubmit_resume out s =
     (let s0 = s\<lparr>pending := pending s - 1\<rparr>;
          s1 = (case out of
                  Fulfilled \<Rightarrow> formReset (showSuccessModal s0)
                | Rejected \<Rightarrow>
                    showNotification ''Something went wrong. Please try again.'' ''error''
                      (s0\<lparr>consoleErrors := Suc (consoleErrors s0)\<rparr>))
      in setLoadingState False s1)"

datatype event =
    Submit             \<comment> \<open>a submit event on the form\<close>
  | Settle outcome     \<comment> \<open>a pending call of \<open>submitToAPI\<close> settles\<close>

fun deliver :: "event \<Rightarrow> page \<Rightarrow> page" where
  "deliver Submit s = handleSubmit s"
| "deliver (Settle out) s = (if pending s = 0 then s else handleSubmit_resume out s)"

definition run :: "event list \<Rightarrow> page \<Rightarrow> page" where
  \<comment> \<open>the event loop: the events are handled one after another\<close>
  "run evs s = fold deliver evs s"

section \<open>Notions used in the statements and proofs\<close>

definition fieldMessage :: "control \<Rightarrow> string option" where
  \<comment> \<open>the message \<open>validateField\<close> ends with for a control, the last failed check
      winning; \<open>None\<close> when every check passes (see \<open>validateField_eq\<close>)\<close>
  "fieldMessage field =
     (let v = trim (value field) in
      if name field = ''phone'' \<and> v \<noteq> [] \<and> \<not> phoneRegex v
        then Some ''Please enter a valid phone number''
      else if type field = ''email'' \<and> v \<noteq> [] \<and> \<not> isValidEmail v
        then Some ''Please enter a valid email address''
      else if required field \<and> v = [] then Some ''This field is required''
      else None)"

definition validateFields :: "nat list \<Rightarrow> page \<Rightarrow> page" where
  \<comment> \<open>the page after \<open>validateField\<close> has run on each control of a list\<close>
  "validateFields is s = fold (\<lambda>i st. snd (validateField i st)) is s"

fun errorCount :: "node \<Rightarrow> nat" where
  \<comment> \<open>the number of \<open>.field-error\<close> elements at or below a node\<close>
  "errorCount (Control i) = 0"
| "errorCount (FieldError m) = 1"
| "errorCount (Element cs) = sum_list (map errorCount cs)"

fun purge :: "node \<Rightarrow> node list" where
  \<comment> \<open>a node without the \<open>.field-error\<close> elements at or below it\<close>
  "purge (Control i) = [Control i]"
| "purge (FieldError m) = []"
| "purge (Element cs) = [Element (concat (map purge cs))]"

definition fieldStep :: "string option \<Rightarrow> node list \<Rightarrow> node list" where
  \<comment> \<open>what one call of \<open>validateField\<close> does to the children of the field's parent, for
      a field whose message is \<open>m\<close> (\<open>None\<close> for a valid field)\<close>
  "fieldStep m cs =
     (case removeFirst cs of Some cs' \<Rightarrow> cs' | None \<Rightarrow> cs) @
     (case m of None \<Rightarrow> [] | Some message \<Rightarrow> [FieldError message])"

definition treeFold :: "(nat \<Rightarrow> string option) \<Rightarrow> nat list \<Rightarrow> node \<Rightarrow> node" where
  \<comment> \<open>what \<open>validateField\<close>, run on each control of a list, does to a tree; \<open>M\<close> gives
      the message of each control\<close>
  "treeFold M is t = fold (\<lambda>i. atParent i (fieldStep (M i))) is t"

fun tidy :: "(nat \<Rightarrow> bool) \<Rightarrow> node \<Rightarrow> bool" where
  \<comment> \<open>\<open>R\<close> tells the required controls. Every element that has a required control among
      its children holds at most one \<open>.field-error\<close> element below it, and every required
      control below it is one of its children\<close>
  "tidy R (Element cs) =
     (if \<exists>i\<in>set (controlIds (Element cs)). R i \<and> Control i \<in> set cs
      then errorCount (Element cs) \<le> 1 \<and>
           (\<forall>i\<in>set (controlIds (Element cs)). R i \<longrightarrow> Control i \<in> set cs)
      else \<forall>n\<in>set cs. tidy R n)"
| "tidy R n = True"

fun firstSome :: "'a option list \<Rightarrow> 'a option" where
  \<comment> \<open>the first result that is not \<open>None\<close>\<close>
  "firstSome [] = None"
| "firstSome (Some x # rs) = Some x"
| "firstSome (None # rs) = firstSome rs"

fun parentChildren :: "nat \<Rightarrow> node \<Rightarrow> node list option" where
  \<comment> \<open>the children of \<open>field.parentNode\<close>, for the control \<open>i\<close> below a node\<close>
  "parentChildren i (Element cs) =
     (if Control i \<in> set cs then Some cs else firstSome (map (parentChildren i) cs))"
| "parentChildren i n = None"

fun errorTexts :: "node \<Rightarrow> string list" where
  \<comment> \<open>the texts of the \<open>.field-error\<close> elements at or below a node, in document order\<close>
  "errorTexts (Control i) = []"
| "errorTexts (FieldError m) = [m]"
| "errorTexts (Element cs) = concat (map errorTexts cs)"

definition errorsBeside :: "nat \<Rightarrow> node \<Rightarrow> string list option" where
  \<comment> \<open>the messages shown below the parent of control \<open>i\<close>\<close>
  "errorsBeside i t = map_option (\<lambda>cs. concat (map errorTexts cs)) (parentChildren i t)"

definition lastRequiredOfParent :: "nat \<Rightarrow> page \<Rightarrow> bool" where
  \<comment> \<open>control \<open>i\<close> is the last required control among the children of its parent\<close>
  "lastRequiredOfParent i s =
     (case parentChildren i (form s) of
        None \<Rightarrow> False
      | Some cs \<Rightarrow>
          (case rev (filter (\<lambda>j. Control j \<in> set cs) (requiredFields s)) of
             [] \<Rightarrow> False
           | j # js \<Rightarrow> j = i))"

section \<open>Example pages\<close>

definition blankControl :: control where
  "blankControl =
     \<lparr>name = [], type = ''text'', required = False, value = [], resetValue = [],
      checked = False, defaultChecked = False, errorClass = False\<rparr>"

definition examplePage :: "string \<Rightarrow> string \<Rightarrow> string \<Rightarrow> page" where
  \<comment> \<open>a form of four controls, each in a wrapping element of its own: a required first
      name, a required email address, an optional phone number and a checked checkbox;
      the arguments are the values of the first three\<close>
  "examplePage first email phone =
     \<lparr>form = Element [Element [Control 0], Element [Control 1], Element [Control 2],
                      Element [Control 3]],
      ctl = (\<lambda>i. blankControl)
              (0 := blankControl\<lparr>name := ''firstName'', required := True, value := first\<rparr>,
               1 := blankControl\<lparr>name := ''email'', type := ''email'', required := True,
                                  value := email\<rparr>,
               2 := blankControl\<lparr>name := ''phone'', type := ''tel'', value := phone\<rparr>,
               3 := blankControl\<lparr>name := ''creditIssues'', type := ''checkbox'',
                                  value := ''collections'', checked := True\<rparr>),
      submitButton = Some \<lparr>disabled = False, innerHTML = ''Get My Free Analysis''\<rparr>,
      originalButtonText = ''Get My Free Analysis'',
      notifications = [], successModal = Some False, consoleErrors = 0,
      apiCalls = [], pending = 0\<rparr>"

definition nestedPage :: page where
  \<comment> \<open>the example page with the first control moved up, a child of the form element
      itself, and the two required fields empty\<close>
  "nestedPage =
     (examplePage [] [] [])
       \<lparr>form := Element [Control 0, Element [Control 1], Element [Control 2],
                         Element [Control 3]]\<rparr>"

definition rowPage :: page where
  \<comment> \<open>the example page with the two required controls in one wrapping element, the
      first name empty and the email address valid\<close>
  "rowPage =
     (examplePage [] ''x@y.com'' [])
       \<lparr>form := Element [Element [Control 0, Control 1], Element [Control 2],
                         Element [Control 3]]\<rparr>"

section \<open>Phone number formatting\<close>

lemma list_all_stripNonDigits: "list_all isDigit (stripNonDigits v)"
  by (simp add: stripNonDigits_def list_all_iff)

lemma filter_digits_id: "list_all isDigit d \<Longrightarrow> filter isDigit d = d"
  by (simp add: list_all_iff)

lemma punctuation_not_digit:
  "\<not> isDigit CHR ''(''" "\<not> isDigit CHR '')''" "\<not> isDigit CHR '' ''" "\<not> isDigit CHR ''-''"
  by (simp_all add: isDigit_def)

lemma three_groups: "take 3 d @ take 3 (drop 3 d) @ drop 6 d = d"
proof -
  have "take 3 (drop 3 d) @ drop 3 (drop 3 d) = drop 3 d"
    by (rule append_take_drop_id)
  then have "take 3 (drop 3 d) @ drop 6 d = drop 3 d"
    by simp
  then show ?thesis by simp
qed

lemma list_all_take_drop:
  "list_all P xs \<Longrightarrow> list_all P (take n xs)" "list_all P xs \<Longrightarrow> list_all P (drop n xs)"
  by (auto simp: list_all_iff dest: in_set_takeD in_set_dropD)

lemma formatPhoneNumber_short:
  assumes "length (stripNonDigits v) \<le> 10"
  shows "formatPhoneNumber v = renderGroups (stripNonDigits v)"
proof -
  let ?d = "stripNonDigits v"
  have g: "phoneGroups ?d = Some (take 3 ?d, take 3 (drop 3 ?d), drop 6 ?d)"
    using assms by (simp add: phoneGroups_def list_all_stripNonDigits)
  show ?thesis
    by (simp add: formatPhoneNumber_def Let_def g renderGroups_def)
qed

lemma stripNonDigits_renderGroups:
  assumes "list_all isDigit d"
  shows "stripNonDigits (renderGroups d) = d"
proof -
  have "filter isDigit (take 3 d) = take 3 d" "filter isDigit (drop 3 d) = drop 3 d"
    "filter isDigit (drop 6 d) = drop 6 d"
    "filter isDigit (take 3 (drop 3 d)) = take 3 (drop 3 d)"
    using assms by (simp_all add: filter_digits_id list_all_take_drop)
  then show ?thesis
    using assms three_groups[of d]
    by (simp add: stripNonDigits_def renderGroups_def punctuation_not_digit filter_digits_id)
qed

lemma stripNonDigits_format:
  assumes "length (stripNonDigits v) \<le> 10"
  shows "stripNonDigits (formatPhoneNumber v) = stripNonDigits v"
  using assms
  by (simp add: formatPhoneNumber_short stripNonDigits_renderGroups list_all_stripNonDigits)

lemma formatPhoneNumber_unmatched:
  "10 < length (stripNonDigits v) \<Longrightarrow> formatPhoneNumber v = v"
  by (simp add: formatPhoneNumber_def phoneGroups_def)

text \<open>
  C2, as the spec states it, fails twice. Three digits are returned bare, without the
  parentheses (the first branch of the conditional returns \<open>match[1]\<close> alone), so
  \<open>555\<close> formats to \<open>555\<close> and not to \<open>(555) \<close>; and eleven digits do not match the
  pattern, so the input comes back untouched, all eleven digits in it.
\<close>

theorem C2_counterexample:
  "formatPhoneNumber ''555'' = ''555'' \<and> formatPhoneNumber ''555'' \<noteq> ''(555) '' \<and>
   length (stripNonDigits (formatPhoneNumber ''55512345678'')) = 11"
  by (simp add: formatPhoneNumber_def stripNonDigits_def phoneGroups_def isDigit_def)

text \<open>
  C2, amended: for every input string that holds at most ten digits, the result holds
  exactly the digits of the input (so at most ten), rendered by their number: up to
  three digits bare (\<open>555\<close> gives \<open>555\<close>), four to six as \<open>(AAA) B..\<close>, seven to ten
  as \<open>(AAA) BBB-C..\<close> (\<open>5551234\<close> gives \<open>(555) 123-4\<close>). Nothing is truncated.
\<close>

theorem C2_formatPhoneNumber_groups:
  assumes "length (stripNonDigits v) \<le> 10"
  shows "stripNonDigits (formatPhoneNumber v) = stripNonDigits v \<and>
         length (stripNonDigits (formatPhoneNumber v)) \<le> 10 \<and>
         formatPhoneNumber v = renderGroups (stripNonDigits v)"
proof -
  have a: "stripNonDigits (formatPhoneNumber v) = stripNonDigits v"
    using assms by (rule stripNonDigits_format)
  have b: "formatPhoneNumber v = renderGroups (stripNonDigits v)"
    using assms by (rule formatPhoneNumber_short)
  have c: "length (stripNonDigits (formatPhoneNumber v)) \<le> 10"
    using assms by (simp only: a)
  show ?thesis
    using a b c by blast
qed

theorem C2_formatPhoneNumber_groups_witness:
  "length (stripNonDigits ''5551234'') \<le> 10 \<and>
   stripNonDigits (formatPhoneNumber ''5551234'') = ''5551234'' \<and>
   formatPhoneNumber ''5551234'' = ''(555) 123-4''"
proof -
  have d: "stripNonDigits ''5551234'' = ''5551234''"
    by (simp add: stripNonDigits_def isDigit_def)
  have h: "length (stripNonDigits ''5551234'') \<le> 10"
    by (simp add: d)
  have r: "renderGroups ''5551234'' = ''(555) 123-4''"
    by (simp add: renderGroups_def)
  show ?thesis
    using C2_formatPhoneNumber_groups [OF h] h unfolding d r by blast
qed

text \<open>
  C9: formatting is idempotent. With at most ten digits the output holds the same
  digits as the input and is rendered from the digits alone; with more than ten the
  input is returned as it is, at both applications.
\<close>

theorem C9_formatPhoneNumber_idempotent:
  "formatPhoneNumber (formatPhoneNumber s) = formatPhoneNumber s"
proof (cases "length (stripNonDigits s) \<le> 10")
  case True
  then have "length (stripNonDigits (formatPhoneNumber s)) \<le> 10"
    by (simp add: stripNonDigits_format)
  then have "formatPhoneNumber (formatPhoneNumber s) =
             renderGroups (stripNonDigits (formatPhoneNumber s))"
    by (rule formatPhoneNumber_short)
  also have "\<dots> = renderGroups (stripNonDigits s)"
    using True by (simp add: stripNonDigits_format)
  also have "\<dots> = formatPhoneNumber s"
    using True by (simp add: formatPhoneNumber_short)
  finally show ?thesis .
next
  case False
  then show ?thesis by (simp add: formatPhoneNumber_unmatched)
qed

text \<open>
  C10: an input with more than ten digit characters is returned unchanged: no
  punctuation is added and no digit is dropped.
\<close>

theorem C10_formatPhoneNumber_over_ten_digits:
  assumes "10 < length (stripNonDigits v)"
  shows "formatPhoneNumber v = v"
  using assms by (rule formatPhoneNumber_unmatched)

theorem C10_formatPhoneNumber_over_ten_digits_witness:
  "10 < length (stripNonDigits ''555-123-4567 89'') \<and>
   formatPhoneNumber ''555-123-4567 89'' = ''555-123-4567 89''"
proof -
  have h: "10 < length (stripNonDigits ''555-123-4567 89'')"
    by (simp add: stripNonDigits_def isDigit_def)
  show ?thesis
    using h C10_formatPhoneNumber_over_ten_digits [OF h] by simp
qed

section \<open>Validation\<close>

lemma validateField_eq:
  "validateField i s =
     (case fieldMessage (ctl s i) of
        None \<Rightarrow> (True, clearFieldError i s)
      | Some m \<Rightarrow> (False, showFieldError i m (clearFieldError i s)))"
  by (simp add: validateField_def fieldMessage_def Let_def)

lemma fst_validateField: "fst (validateField i s) = (fieldMessage (ctl s i) = None)"
  by (simp add: validateField_eq split: option.split)

lemma fieldMessage_errorClass [simp]: "fieldMessage (c\<lparr>errorClass := b\<rparr>) = fieldMessage c"
  by (simp add: fieldMessage_def Let_def)

lemma ctl_validateField:
  "ctl (snd (validateField i s)) =
     (ctl s)(i := (ctl s i)\<lparr>errorClass := \<not> fst (validateField i s)\<rparr>)"
  by (simp add: validateField_eq clearFieldError_def showFieldError_def split: option.split)

lemma validateField_frame:
  "snd (validateField i s) =
     s\<lparr>ctl := ctl (snd (validateField i s)), form := form (snd (validateField i s))\<rparr>"
  by (simp add: validateField_eq clearFieldError_def showFieldError_def split: option.split)

lemma fieldMessage_validateField [simp]:
  "fieldMessage (ctl (snd (validateField i s)) j) = fieldMessage (ctl s j)"
  by (simp add: ctl_validateField)

lemma fold_validateField:
  "fold (\<lambda>i (isValid, st).
             let (ok, st') = validateField i st
             in (if \<not> ok then False else isValid, st')) is (b, s)
   = (b \<and> list_all (\<lambda>i. fieldMessage (ctl s i) = None) is, validateFields is s)"
proof (induction "is" arbitrary: b s)
  case Nil
  then show ?case by (simp add: validateFields_def)
next
  case (Cons i "is")
  obtain ok s' where v: "validateField i s = (ok, s')" by (cases "validateField i s")
  have ok: "ok = (fieldMessage (ctl s i) = None)"
    using fst_validateField[of i s] v by simp
  have s': "s' = snd (validateField i s)" using v by simp
  have same: "list_all (\<lambda>j. fieldMessage (ctl s' j) = None) is
              = list_all (\<lambda>j. fieldMessage (ctl s j) = None) is"
    by (simp add: s')
  show ?case
    using Cons.IH[of "if \<not> ok then False else b" s'] v
    by (auto simp: validateFields_def ok same)
qed

lemma validateForm_eq:
  "validateForm s =
     (list_all (\<lambda>i. fieldMessage (ctl s i) = None) (requiredFields s),
      validateFields (requiredFields s) s)"
  unfolding validateForm_def by (subst fold_validateField) simp

lemma validateFields_Nil [simp]: "validateFields [] s = s"
  by (simp add: validateFields_def)

lemma validateFields_Cons [simp]:
  "validateFields (i # is) s = validateFields is (snd (validateField i s))"
  by (simp add: validateFields_def)

lemma validateFields_append [simp]:
  "validateFields (is @ js) s = validateFields js (validateFields is s)"
  by (simp add: validateFields_def)

lemma fieldMessage_validateFields [simp]:
  "fieldMessage (ctl (validateFields is s) j) = fieldMessage (ctl s j)"
  by (induction "is" arbitrary: s) simp_all

lemma ctl_validateFields:
  "ctl (validateFields is s) j =
     (if j \<in> set is then (ctl s j)\<lparr>errorClass := fieldMessage (ctl s j) \<noteq> None\<rparr> else ctl s j)"
proof (induction "is" arbitrary: s)
  case Nil
  then show ?case by simp
next
  case (Cons i "is")
  show ?case
    by (simp add: Cons.IH ctl_validateField fst_validateField)
qed

lemma validateField_others:
  "submitButton (snd (validateField i s)) = submitButton s"
  "originalButtonText (snd (validateField i s)) = originalButtonText s"
  "notifications (snd (validateField i s)) = notifications s"
  "successModal (snd (validateField i s)) = successModal s"
  "consoleErrors (snd (validateField i s)) = consoleErrors s"
  "apiCalls (snd (validateField i s)) = apiCalls s"
  "pending (snd (validateField i s)) = pending s"
  by (simp_all add: validateField_eq clearFieldError_def showFieldError_def split: option.split)

lemma validateFields_others:
  "submitButton (validateFields is s) = submitButton s"
  "originalButtonText (validateFields is s) = originalButtonText s"
  "notifications (validateFields is s) = notifications s"
  "successModal (validateFields is s) = successModal s"
  "consoleErrors (validateFields is s) = consoleErrors s"
  "apiCalls (validateFields is s) = apiCalls s"
  "pending (validateFields is s) = pending s"
  by (induction "is" arbitrary: s) (simp_all add: validateField_others)

lemma validateForm_others:
  "submitButton (snd (validateForm s)) = submitButton s"
  "originalButtonText (snd (validateForm s)) = originalButtonText s"
  "notifications (snd (validateForm s)) = notifications s"
  "successModal (snd (validateForm s)) = successModal s"
  "consoleErrors (snd (validateForm s)) = consoleErrors s"
  "apiCalls (snd (validateForm s)) = apiCalls s"
  "pending (snd (validateForm s)) = pending s"
  by (simp_all add: validateForm_eq validateFields_others)

lemma value_validateForm: "value (ctl (snd (validateForm s)) j) = value (ctl s j)"
  by (simp add: validateForm_eq ctl_validateFields)

lemma handleSubmit_invalid:
  "\<not> fst (validateForm s) \<Longrightarrow>
   handleSubmit s = showNotification ''Please fix the errors above'' ''error'' (snd (validateForm s))"
  by (cases "validateForm s") (simp add: handleSubmit_def)

lemma handleSubmit_valid:
  "fst (validateForm s) \<Longrightarrow>
   handleSubmit s =
     (let s2 = setLoadingState True (snd (validateForm s))
      in s2\<lparr>apiCalls := apiCalls s2 @ [collectData s2], pending := Suc (pending s2)\<rparr>)"
  by (cases "validateForm s") (simp add: handleSubmit_def Let_def)

lemma setLoadingState_others:
  "form (setLoadingState b s) = form s"
  "ctl (setLoadingState b s) = ctl s"
  "originalButtonText (setLoadingState b s) = originalButtonText s"
  "notifications (setLoadingState b s) = notifications s"
  "successModal (setLoadingState b s) = successModal s"
  "consoleErrors (setLoadingState b s) = consoleErrors s"
  "apiCalls (setLoadingState b s) = apiCalls s"
  "pending (setLoadingState b s) = pending s"
  by (simp_all add: setLoadingState_def split: option.split)

lemma submitButton_setLoadingState:
  "submitButton (setLoadingState b s) =
     map_option (\<lambda>x. x\<lparr>disabled := b,
                        innerHTML := (if b then processingLabel else originalButtonText s)\<rparr>)
       (submitButton s)"
  by (simp add: setLoadingState_def split: option.split)

lemma requiredFields_required: "i \<in> set (requiredFields s) \<Longrightarrow> required (ctl s i)"
  by (simp add: requiredFields_def)




text \<open>
  C4, as the spec states it, fails: \<open>validateField\<close> writes to the page. On an empty
  required field it puts the class \<open>error\<close> on the control and appends a
  \<open>.field-error\<close> element to the control's parent.
\<close>

theorem C4_counterexample:
  "form (examplePage [] ''x@y.com'' []) =
     Element [Element [Control 0], Element [Control 1], Element [Control 2], Element [Control 3]] \<and>
   form (snd (validateField 0 (examplePage [] ''x@y.com'' []))) =
     Element [Element [Control 0, FieldError ''This field is required''],
              Element [Control 1], Element [Control 2], Element [Control 3]] \<and>
   errorClass (ctl (examplePage [] ''x@y.com'' []) 0) = False \<and>
   errorClass (ctl (snd (validateField 0 (examplePage [] ''x@y.com'' []))) 0) = True"
  by code_simp

text \<open>
  C4, amended: the verdict of \<open>validateField\<close> is a function of the field's name,
  type, required flag and value alone (two fields that agree on these get the same
  verdict, on any two pages). The call is not free of effects: it first clears the
  field's error (the class on the control and the first \<open>.field-error\<close> element below
  the control's parent) and, when the value is invalid, puts the class back and appends
  the message to the parent. Nothing else on the page changes: not the other controls,
  not the button, the notifications, the dialog or the calls of the API.
\<close>

theorem C4_validateField_verdict_and_effect:
  assumes "name (ctl s i) = name (ctl s' j)" and "type (ctl s i) = type (ctl s' j)"
    and "required (ctl s i) = required (ctl s' j)" and "value (ctl s i) = value (ctl s' j)"
  shows "fst (validateField i s) = fst (validateField j s') \<and>
         snd (validateField i s) =
           (case fieldMessage (ctl s i) of
              None \<Rightarrow> clearFieldError i s
            | Some message \<Rightarrow> showFieldError i message (clearFieldError i s)) \<and>
         snd (validateField i s) =
           s\<lparr>ctl := (ctl s)(i := (ctl s i)\<lparr>errorClass := \<not> fst (validateField i s)\<rparr>),
             form := form (snd (validateField i s))\<rparr>"
proof -
  have "fieldMessage (ctl s i) = fieldMessage (ctl s' j)"
    unfolding fieldMessage_def assms by (rule refl)
  then have a: "fst (validateField i s) = fst (validateField j s')"
    by (simp add: fst_validateField)
  have b: "snd (validateField i s) =
           (case fieldMessage (ctl s i) of
              None \<Rightarrow> clearFieldError i s
            | Some message \<Rightarrow> showFieldError i message (clearFieldError i s))"
    by (simp add: validateField_eq split: option.split)
  have c: "snd (validateField i s) =
           s\<lparr>ctl := (ctl s)(i := (ctl s i)\<lparr>errorClass := \<not> fst (validateField i s)\<rparr>),
             form := form (snd (validateField i s))\<rparr>"
    using validateField_frame[of i s] by (simp only: ctl_validateField)
  show ?thesis using a b c by blast
qed

theorem C4_validateField_verdict_and_effect_witness:
  "fst (validateField 0 (examplePage ''Ann'' [] [])) =
     fst (validateField 7 ((examplePage [] [] [])\<lparr>ctl := (\<lambda>i. blankControl\<lparr>name := ''firstName'', required := True, value := ''Ann'', errorClass := True\<rparr>)\<rparr>)) \<and>
   snd (validateField 0 (examplePage ''Ann'' [] [])) = clearFieldError 0 (examplePage ''Ann'' [] [])"
proof -
  let ?s = "examplePage ''Ann'' [] []"
  let ?s' = "(examplePage [] [] [])\<lparr>ctl := (\<lambda>i. blankControl\<lparr>name := ''firstName'', required := True, value := ''Ann'', errorClass := True\<rparr>)\<rparr>"
  have h: "name (ctl ?s 0) = name (ctl ?s' 7)" "type (ctl ?s 0) = type (ctl ?s' 7)"
    "required (ctl ?s 0) = required (ctl ?s' 7)" "value (ctl ?s 0) = value (ctl ?s' 7)"
    by (simp_all add: examplePage_def blankControl_def)
  have m: "fieldMessage (ctl ?s 0) = None"
    by code_simp
  show ?thesis
    using C4_validateField_verdict_and_effect [OF h] by (simp add: m)
qed

section \<open>Submission\<close>

lemma handleSubmit_resume_others:
  "form (handleSubmit_resume out s) = form s"
  "originalButtonText (handleSubmit_resume out s) = originalButtonText s"
  "apiCalls (handleSubmit_resume out s) = apiCalls s"
  "pending (handleSubmit_resume out s) = pending s - 1"
  by (cases out; simp add: handleSubmit_resume_def Let_def setLoadingState_others
      showNotification_def formReset_def showSuccessModal_def split: option.split)+

lemma button_overwritten:
  "(b::button)\<lparr>disabled := x, innerHTML := y\<rparr> = \<lparr>disabled = x, innerHTML = y\<rparr>"
  by (cases b) simp

lemma submitButton_handleSubmit_resume:
  "submitButton (handleSubmit_resume out s) =
     map_option (\<lambda>b. \<lparr>disabled = False, innerHTML = originalButtonText s\<rparr>) (submitButton s)"
  by (cases out; simp add: handleSubmit_resume_def Let_def submitButton_setLoadingState
      showNotification_def formReset_def showSuccessModal_def button_overwritten
      split: option.split)

lemma handleSubmit_originalButtonText:
  "originalButtonText (handleSubmit s) = originalButtonText s"
  by (cases "fst (validateForm s)")
    (simp_all add: handleSubmit_valid handleSubmit_invalid Let_def setLoadingState_others
      validateForm_others showNotification_def)

lemma submitButton_handleSubmit:
  "submitButton (handleSubmit s) =
     (if fst (validateForm s)
      then map_option (\<lambda>b. \<lparr>disabled = True, innerHTML = processingLabel\<rparr>) (submitButton s)
      else submitButton s)"
  by (simp add: handleSubmit_valid handleSubmit_invalid Let_def submitButton_setLoadingState
      validateForm_others showNotification_def button_overwritten)

lemma deliver_button:
  "originalButtonText (deliver e s) = originalButtonText s"
  "(submitButton (deliver e s) = None) = (submitButton s = None)"
  by (cases e; simp add: handleSubmit_originalButtonText handleSubmit_resume_others
      submitButton_handleSubmit submitButton_handleSubmit_resume)+

lemma run_button:
  "originalButtonText (run evs s) = originalButtonText s \<and>
   (submitButton (run evs s) = None) = (submitButton s = None)"
  unfolding run_def by (induction evs arbitrary: s) (simp_all add: deliver_button)

text \<open>
  C6: the trigger control is always restored. Take the handler as constructed on any
  page \<open>p\<close> and any events handled since; let a submit event pass validation. Then the
  button (when the form has one) is disabled with the busy label, and once the awaited call
  settles, fulfilled or rejected, and whatever other submit events and settlements were
  handled in between, the \<open>finally\<close> block leaves the button enabled with the label it
  had on \<open>p\<close>.
\<close>

theorem C6_trigger_restored:
  assumes "s = run before (FormHandler_constructor p)" and "fst (validateForm s)"
  shows "submitButton (handleSubmit s) =
           map_option (\<lambda>b. \<lparr>disabled = True, innerHTML = processingLabel\<rparr>) (submitButton s) \<and>
         submitButton (handleSubmit_resume out (run between (handleSubmit s))) =
           map_option (\<lambda>b. \<lparr>disabled = False, innerHTML = innerHTML b\<rparr>) (submitButton p)"
proof -
  have a: "submitButton (handleSubmit s) =
           map_option (\<lambda>b. \<lparr>disabled = True, innerHTML = processingLabel\<rparr>) (submitButton s)"
    using assms(2) by (simp add: submitButton_handleSubmit)
  let ?s' = "run between (handleSubmit s)"
  have o: "originalButtonText ?s' = originalButtonText (FormHandler_constructor p)"
    by (simp add: run_button handleSubmit_originalButtonText assms(1))
  have n: "(submitButton ?s' = None) = (submitButton p = None)"
    using a by (simp add: run_button assms(1) FormHandler_constructor_def)
  have "submitButton (handleSubmit_resume out ?s') =
        map_option (\<lambda>b. \<lparr>disabled = False, innerHTML = innerHTML b\<rparr>) (submitButton p)"
  proof (cases "submitButton p")
    case None
    then show ?thesis using n by (simp add: submitButton_handleSubmit_resume)
  next
    case (Some b)
    then obtain b' where "submitButton ?s' = Some b'" using n by auto
    then show ?thesis
      using Some o by (simp add: submitButton_handleSubmit_resume FormHandler_constructor_def)
  qed
  then show ?thesis using a by blast
qed

theorem C6_trigger_restored_witness:
  "fst (validateForm (run [] (FormHandler_constructor (examplePage ''Ann'' ''x@y.com'' [])))) \<and>
   submitButton (handleSubmit_resume Rejected
      (run [Submit] (handleSubmit (run [] (FormHandler_constructor (examplePage ''Ann'' ''x@y.com'' [])))))) =
     Some \<lparr>disabled = False, innerHTML = ''Get My Free Analysis''\<rparr>"
proof -
  let ?s = "run [] (FormHandler_constructor (examplePage ''Ann'' ''x@y.com'' []))"
  have h: "fst (validateForm ?s)"
    by code_simp
  have b: "submitButton (examplePage ''Ann'' ''x@y.com'' []) =
           Some \<lparr>disabled = False, innerHTML = ''Get My Free Analysis''\<rparr>"
    by (simp add: examplePage_def)
  show ?thesis
    using h C6_trigger_restored [OF refl h, of Rejected "[Submit]"] by (simp add: b)
qed

text \<open>
  C7: when the awaited call rejects, the \<open>catch\<close> block appends exactly one
  notification, \<open>Something went wrong. Please try again.\<close>, and leaves every control
  and the form's tree as they are: the values entered stay and nothing is reset. The
  synchronous part of \<open>handleSubmit\<close> changes no value and no checkedness either,
  whether validation passes or not. Only when the call is fulfilled does
  \<open>form.reset()\<close> run: it appends no notification, every control of the form takes
  its default checkedness, and every control takes its reset value, but for a checkbox,
  a radio button and the other inputs that report their \<open>value\<close> attribute, whose
  value a reset leaves alone.
\<close>

theorem C7_rejection_keeps_the_values:
  "ctl (handleSubmit_resume Rejected s) = ctl s \<and>
   form (handleSubmit_resume Rejected s) = form s \<and>
   notifications (handleSubmit_resume Rejected s) =
     notifications s @ [(''Something went wrong. Please try again.'', ''error'')] \<and>
   successModal (handleSubmit_resume Rejected s) = successModal s \<and>
   (\<forall>i. value (ctl (handleSubmit s) i) = value (ctl s i)) \<and>
   (\<forall>i. checked (ctl (handleSubmit s) i) = checked (ctl s i)) \<and>
   notifications (handleSubmit_resume Fulfilled s) = notifications s \<and>
   map (\<lambda>i. value (ctl (handleSubmit_resume Fulfilled s) i)) (controlIds (form s)) =
     map (\<lambda>i. if keepsValueOnReset (type (ctl s i)) then value (ctl s i)
               else resetValue (ctl s i))
       (controlIds (form s)) \<and>
   map (\<lambda>i. checked (ctl (handleSubmit_resume Fulfilled s) i)) (controlIds (form s)) =
     map (\<lambda>i. defaultChecked (ctl s i)) (controlIds (form s))"
proof -
  have a: "ctl (handleSubmit_resume Rejected s) = ctl s"
    "form (handleSubmit_resume Rejected s) = form s"
    "notifications (handleSubmit_resume Rejected s) =
       notifications s @ [(''Something went wrong. Please try again.'', ''error'')]"
    "successModal (handleSubmit_resume Rejected s) = successModal s"
    by (simp_all add: handleSubmit_resume_def Let_def setLoadingState_others
        showNotification_def)
  have v: "ctl (handleSubmit s) i = (ctl (snd (validateForm s)) i)" for i
    by (cases "fst (validateForm s)")
      (simp_all add: handleSubmit_valid handleSubmit_invalid Let_def setLoadingState_others
        showNotification_def)
  have b: "value (ctl (handleSubmit s) i) = value (ctl s i)"
    "checked (ctl (handleSubmit s) i) = checked (ctl s i)" for i
    by (simp_all add: v validateForm_eq ctl_validateFields)
  have c: "notifications (handleSubmit_resume Fulfilled s) = notifications s"
    "map (\<lambda>i. value (ctl (handleSubmit_resume Fulfilled s) i)) (controlIds (form s)) =
       map (\<lambda>i. if keepsValueOnReset (type (ctl s i)) then value (ctl s i)
                 else resetValue (ctl s i))
         (controlIds (form s))"
    "map (\<lambda>i. checked (ctl (handleSubmit_resume Fulfilled s) i)) (controlIds (form s)) =
       map (\<lambda>i. defaultChecked (ctl s i)) (controlIds (form s))"
    by (simp_all add: handleSubmit_resume_def Let_def setLoadingState_others formReset_def
        showSuccessModal_def split: option.split)
  show ?thesis using a b c by blast
qed

theorem C7_rejection_keeps_the_values_witness:
  "map (\<lambda>i. value (ctl (handleSubmit_resume Rejected
          (handleSubmit (examplePage ''Ann'' ''x@y.com'' []))) i)) [0, 1, 2, 3] =
     [''Ann'', ''x@y.com'', [], ''collections''] \<and>
   notifications (handleSubmit_resume Rejected
          (handleSubmit (examplePage ''Ann'' ''x@y.com'' []))) =
     [(''Something went wrong. Please try again.'', ''error'')] \<and>
   map (\<lambda>i. value (ctl (handleSubmit_resume Fulfilled
          (handleSubmit (examplePage ''Ann'' ''x@y.com'' []))) i)) [0, 1, 2, 3] =
     [[], [], [], ''collections'']"
proof -
  let ?p = "examplePage ''Ann'' ''x@y.com'' []"
  let ?s = "handleSubmit ?p"
  have ids: "controlIds (form ?s) = [0, 1, 2, 3]" by code_simp
  have n: "notifications ?s = []" by code_simp
  have vals: "map (\<lambda>i. value (ctl ?p i)) [0, 1, 2, 3] = [''Ann'', ''x@y.com'', [], ''collections'']"
    by code_simp
  have r: "map (\<lambda>i. if keepsValueOnReset (type (ctl ?s i)) then value (ctl ?s i)
                 else resetValue (ctl ?s i)) [0, 1, 2, 3] = [[], [], [], ''collections'']"
    by code_simp
  have k: "\<forall>i. value (ctl ?s i) = value (ctl ?p i)"
    using C7_rejection_keeps_the_values [of ?p] by blast
  from C7_rejection_keeps_the_values [of ?s]
  have "ctl (handleSubmit_resume Rejected ?s) = ctl ?s"
    and "notifications (handleSubmit_resume Rejected ?s) =
           notifications ?s @ [(''Something went wrong. Please try again.'', ''error'')]"
    and "map (\<lambda>i. value (ctl (handleSubmit_resume Fulfilled ?s) i)) (controlIds (form ?s)) =
           map (\<lambda>i. if keepsValueOnReset (type (ctl ?s i)) then value (ctl ?s i)
                     else resetValue (ctl ?s i))
             (controlIds (form ?s))"
    by blast+
  then show ?thesis
    using k vals r by (simp add: ids n)
qed

section \<open>Validating twice\<close>

text \<open>
  The effect of \<open>validateForm\<close> on the form's tree is worked out element by element.
  Where no child of an element is among the validated controls, the calls pass through
  to the children; where the validated controls below an element are all children of
  it, the calls rewrite its list of children one after the other.
\<close>

lemma removeFirst_Control_mem:
  "removeFirst cs = Some cs' \<Longrightarrow> (Control k \<in> set cs') = (Control k \<in> set cs)"
  by (induction cs arbitrary: cs' rule: removeFirst.induct)
    (auto split: option.splits)

lemma removeFirst_controlIds:
  "removeFirst cs = Some cs' \<Longrightarrow>
   concat (map controlIds cs') = concat (map controlIds cs)"
  by (induction cs arbitrary: cs' rule: removeFirst.induct)
    (auto split: option.splits)

lemma fieldStep_Control_mem [simp]:
  "(Control k \<in> set (fieldStep m cs)) = (Control k \<in> set cs)"
  by (auto simp: fieldStep_def removeFirst_Control_mem split: option.splits)

lemma fieldStep_controlIds [simp]:
  "concat (map controlIds (fieldStep m cs)) = concat (map controlIds cs)"
  by (auto simp: fieldStep_def removeFirst_controlIds split: option.splits)

lemma atParent_eq_Control [simp]:
  "(atParent i g n = Control k) = (n = Control k)"
  "(Control k = atParent i g n) = (n = Control k)"
  by (cases n; auto)+

lemma Control_mem_image_atParent [simp]:
  "(Control k \<in> atParent i g ` A) = (Control k \<in> A)"
  by (auto simp: image_iff)

lemma atParent_absent: "i \<notin> set (controlIds t) \<Longrightarrow> atParent i g t = t"
proof (induction t)
  case (Element cs)
  have "Control i \<notin> set cs"
    using Element.prems by force
  moreover have "map (atParent i g) cs = cs"
    using Element by (intro map_idI) auto
  ultimately show ?case by simp
qed simp_all

lemma controlIds_atParent:
  assumes "\<And>cs. concat (map controlIds (g cs)) = concat (map controlIds cs)"
  shows "controlIds (atParent i g t) = controlIds t"
proof (induction t)
  case (Element cs)
  have m: "map (\<lambda>c. controlIds (atParent i g c)) cs = map controlIds cs"
    using Element by (intro map_cong) auto
  show ?case by (simp add: assms comp_def m)
qed simp_all

lemma atParent_twice:
  assumes "\<And>cs. (Control i \<in> set (g cs)) = (Control i \<in> set cs)"
  shows "atParent i h (atParent i g t) = atParent i (\<lambda>cs. h (g cs)) t"
proof (induction t)
  case (Element cs)
  show ?case
  proof (cases "Control i \<in> set cs")
    case True
    then show ?thesis using assms by simp
  next
    case False
    have m: "map (\<lambda>c. atParent i h (atParent i g c)) cs = map (atParent i (\<lambda>cs. h (g cs))) cs"
      using Element by (intro map_cong) auto
    show ?thesis using False by (simp add: comp_def m)
  qed
qed simp_all

lemma fieldStep_None:
  "fieldStep None = (\<lambda>cs. case removeFirst cs of Some cs' \<Rightarrow> cs' | None \<Rightarrow> cs)"
  by (rule ext) (simp add: fieldStep_def)

lemma fieldStep_Some:
  "fieldStep (Some m) =
     (\<lambda>cs. (case removeFirst cs of Some cs' \<Rightarrow> cs' | None \<Rightarrow> cs) @ [FieldError m])"
  by (rule ext) (simp add: fieldStep_def)

lemma form_validateField:
  "form (snd (validateField i s)) = atParent i (fieldStep (fieldMessage (ctl s i))) (form s)"
proof (cases "fieldMessage (ctl s i)")
  case None
  then show ?thesis
    by (simp add: validateField_eq clearFieldError_def fieldStep_None)
next
  case (Some m)
  have "\<And>cs. (Control i \<in> set (case removeFirst cs of None \<Rightarrow> cs | Some cs' \<Rightarrow> cs'))
           = (Control i \<in> set cs)"
    by (auto simp: removeFirst_Control_mem split: option.splits)
  then show ?thesis
    using Some
    by (simp add: validateField_eq clearFieldError_def showFieldError_def fieldStep_Some
        atParent_twice)
qed

lemma form_validateFields:
  "form (validateFields is s) = treeFold (\<lambda>i. fieldMessage (ctl s i)) is (form s)"
proof (induction "is" arbitrary: s)
  case Nil
  then show ?case by (simp add: treeFold_def)
next
  case (Cons i "is")
  show ?case
    by (simp add: Cons.IH form_validateField treeFold_def)
qed

lemma controlIds_treeFold [simp]: "controlIds (treeFold M is t) = controlIds t"
  unfolding treeFold_def
  by (induction "is" arbitrary: t) (simp_all add: controlIds_atParent)

lemma removeFirst_no_error:
  "sum_list (map errorCount cs) = 0 \<Longrightarrow> removeFirst cs = None"
  by (induction cs rule: removeFirst.induct) auto

lemma concat_singletons: "(\<And>x. x \<in> set xs \<Longrightarrow> f x = [x]) \<Longrightarrow> concat (map f xs) = xs"
  by (induction xs) simp_all

lemma purge_no_error:
  "errorCount n = 0 \<Longrightarrow> purge n = [n]"
proof (induction n)
  case (Element cs)
  have "concat (map purge cs) = cs"
    using Element by (intro concat_singletons) simp
  then show ?case by simp
qed simp_all

lemma purge_all_no_error:
  "sum_list (map errorCount cs) = 0 \<Longrightarrow> concat (map purge cs) = cs"
  by (intro concat_singletons) (simp add: purge_no_error)

lemma removeFirst_one_error:
  "sum_list (map errorCount cs) = 1 \<Longrightarrow> removeFirst cs = Some (concat (map purge cs))"
proof (induction cs rule: removeFirst.induct)
  case 1
  then show ?case by simp
next
  case (2 m ns)
  then show ?case by (simp add: purge_all_no_error)
next
  case (3 i ns)
  then show ?case by simp
next
  case (4 cs ns)
  show ?case
  proof (cases "sum_list (map errorCount cs) = 0")
    case True
    then have n: "removeFirst cs = None" "concat (map purge cs) = cs"
      by (simp_all add: removeFirst_no_error purge_all_no_error)
    have "sum_list (map errorCount ns) = 1"
      using "4.prems" True by simp
    then show ?thesis
      using "4.IH"(2) n by simp
  next
    case False
    have "sum_list (map errorCount cs) + sum_list (map errorCount ns) = 1"
      using "4.prems" by simp
    then have c: "sum_list (map errorCount cs) = 1" "sum_list (map errorCount ns) = 0"
      using False by linarith+
    show ?thesis
      using "4.IH"(1) c by (simp add: purge_all_no_error)
  qed
qed

lemma errorCount_purge: "n' \<in> set (purge n) \<Longrightarrow> errorCount n' = 0"
  by (induction n arbitrary: n') auto

lemma errorCount_purge_all: "sum_list (map errorCount (concat (map purge cs))) = 0"
  by (auto simp: errorCount_purge)

lemma fieldStep_tidy:
  assumes "sum_list (map errorCount cs) \<le> 1"
  shows "fieldStep m cs =
           concat (map purge cs) @ (case m of None \<Rightarrow> [] | Some message \<Rightarrow> [FieldError message])"
proof (cases "sum_list (map errorCount cs) = 0")
  case True
  then show ?thesis
    by (simp add: fieldStep_def removeFirst_no_error purge_all_no_error)
next
  case False
  then have "sum_list (map errorCount cs) = 1" using assms by linarith
  then show ?thesis
    by (simp add: fieldStep_def removeFirst_one_error)
qed

lemma purge_all_again: "concat (map purge (concat (map purge cs))) = concat (map purge cs)"
  by (rule purge_all_no_error) (rule errorCount_purge_all)

lemma fold_fieldStep_tidy:
  assumes "sum_list (map errorCount cs) \<le> 1" and "js \<noteq> []"
  shows "fold (\<lambda>i. fieldStep (M i)) js cs =
           concat (map purge cs) @
           (case M (last js) of None \<Rightarrow> [] | Some message \<Rightarrow> [FieldError message])"
  using assms
proof (induction js arbitrary: cs)
  case Nil
  then show ?case by simp
next
  case (Cons j js)
  let ?cs' = "fieldStep (M j) cs"
  have s: "?cs' = concat (map purge cs) @
             (case M j of None \<Rightarrow> [] | Some message \<Rightarrow> [FieldError message])"
    using Cons.prems(1) by (rule fieldStep_tidy)
  have e: "sum_list (map errorCount ?cs') \<le> 1"
    unfolding s by (cases "M j") (simp_all add: errorCount_purge_all)
  have p: "concat (map purge ?cs') = concat (map purge cs)"
    unfolding s by (cases "M j") (simp_all add: purge_all_again)
  show ?case
  proof (cases "js = []")
    case True
    then show ?thesis by (simp add: s)
  next
    case False
    then show ?thesis
      using Cons.IH[OF e False] by (simp add: p)
  qed
qed

lemma fold_fieldStep_idem:
  assumes "sum_list (map errorCount cs) \<le> 1"
  shows "fold (\<lambda>i. fieldStep (M i)) js (fold (\<lambda>i. fieldStep (M i)) js cs) =
         fold (\<lambda>i. fieldStep (M i)) js cs"
proof (cases "js = []")
  case True
  then show ?thesis by simp
next
  case False
  let ?r = "concat (map purge cs) @
           (case M (last js) of None \<Rightarrow> [] | Some message \<Rightarrow> [FieldError message])"
  have a: "fold (\<lambda>i. fieldStep (M i)) js cs = ?r"
    using assms False by (rule fold_fieldStep_tidy)
  have e: "sum_list (map errorCount ?r) \<le> 1"
    by (cases "M (last js)") (simp_all add: errorCount_purge_all)
  have p: "concat (map purge ?r) = concat (map purge cs)"
    by (cases "M (last js)") (simp_all add: purge_all_again)
  have "fold (\<lambda>i. fieldStep (M i)) js ?r = ?r"
    using fold_fieldStep_tidy[OF e False, of M] by (simp only: p)
  then show ?thesis by (simp only: a)
qed

lemma treeFold_Nil [simp]: "treeFold M [] t = t"
  by (simp add: treeFold_def)

lemma treeFold_Cons [simp]:
  "treeFold M (i # is) t = treeFold M is (atParent i (fieldStep (M i)) t)"
  by (simp add: treeFold_def)

lemma treeFold_leaf [simp]:
  "treeFold M is (Control k) = Control k"
  "treeFold M is (FieldError m) = FieldError m"
  by (induction "is") simp_all

lemma treeFold_eq_Control [simp]:
  "(treeFold M is n = Control k) = (n = Control k)"
  "(Control k = treeFold M is n) = (n = Control k)"
  by (induction "is" arbitrary: n) auto

lemma Control_mem_image_treeFold [simp]:
  "(Control k \<in> treeFold M is ` A) = (Control k \<in> A)"
  by (auto simp: image_iff)

lemma treeFold_apart:
  "(\<And>i. i \<in> set is \<Longrightarrow> Control i \<notin> set cs) \<Longrightarrow>
   treeFold M is (Element cs) = Element (map (treeFold M is) cs)"
proof (induction "is" arbitrary: cs)
  case Nil
  then show ?case by simp
next
  case (Cons i "is")
  have "treeFold M is (Element (map (atParent i (fieldStep (M i))) cs)) =
        Element (map (treeFold M is) (map (atParent i (fieldStep (M i))) cs))"
    using Cons.prems by (intro Cons.IH) simp
  then show ?case using Cons.prems by simp
qed

lemma fold_fieldStep_Control_mem [simp]:
  "(Control k \<in> set (fold (\<lambda>i. fieldStep (M i)) js cs)) = (Control k \<in> set cs)"
  by (induction js arbitrary: cs) simp_all

lemma fold_fieldStep_controlIds [simp]:
  "concat (map controlIds (fold (\<lambda>i. fieldStep (M i)) js cs)) = concat (map controlIds cs)"
  by (induction js arbitrary: cs) simp_all

lemma treeFold_group:
  "(\<And>i. i \<in> set is \<Longrightarrow> i \<in> set (concat (map controlIds cs)) \<Longrightarrow> Control i \<in> set cs) \<Longrightarrow>
   treeFold M is (Element cs) =
     Element (fold (\<lambda>i. fieldStep (M i)) (filter (\<lambda>i. Control i \<in> set cs) is) cs)"
proof (induction "is" arbitrary: cs)
  case Nil
  then show ?case by simp
next
  case (Cons i "is")
  show ?case
  proof (cases "Control i \<in> set cs")
    case True
    have "treeFold M is (Element (fieldStep (M i) cs)) =
          Element (fold (\<lambda>i. fieldStep (M i))
            (filter (\<lambda>j. Control j \<in> set (fieldStep (M i) cs)) is) (fieldStep (M i) cs))"
      using Cons.prems by (intro Cons.IH) simp
    then show ?thesis using True by simp
  next
    case False
    then have "i \<notin> set (concat (map controlIds cs))"
      using Cons.prems[of i] by auto
    then have "map (atParent i (fieldStep (M i))) cs = cs"
      by (intro map_idI atParent_absent) auto
    moreover have "treeFold M is (Element cs) =
          Element (fold (\<lambda>i. fieldStep (M i)) (filter (\<lambda>i. Control i \<in> set cs) is) cs)"
      using Cons.prems by (intro Cons.IH) simp
    ultimately show ?thesis using False by simp
  qed
qed

lemma treeFold_idem:
  assumes "\<And>i. i \<in> set is \<Longrightarrow> R i"
  shows "tidy R t \<Longrightarrow> treeFold M is (treeFold M is t) = treeFold M is t"
proof (induction t)
  case (Control k)
  then show ?case by simp
next
  case (FieldError m)
  then show ?case by simp
next
  case (Element cs)
  show ?case
  proof (cases "\<exists>i\<in>set (controlIds (Element cs)). R i \<and> Control i \<in> set cs")
    case True
    then have e: "sum_list (map errorCount cs) \<le> 1"
      and d: "\<And>i. i \<in> set (concat (map controlIds cs)) \<Longrightarrow> R i \<Longrightarrow> Control i \<in> set cs"
      using Element.prems by auto
    let ?js = "filter (\<lambda>i. Control i \<in> set cs) is"
    let ?cs' = "fold (\<lambda>i. fieldStep (M i)) ?js cs"
    have a: "treeFold M is (Element cs) = Element ?cs'"
      using d assms by (intro treeFold_group) auto
    have "treeFold M is (Element ?cs') =
            Element (fold (\<lambda>i. fieldStep (M i)) (filter (\<lambda>i. Control i \<in> set ?cs') is) ?cs')"
      using d assms by (intro treeFold_group) auto
    also have "\<dots> = Element (fold (\<lambda>i. fieldStep (M i)) ?js ?cs')"
      by simp
    also have "\<dots> = Element ?cs'"
      using e by (simp only: fold_fieldStep_idem)
    finally show ?thesis by (simp only: a)
  next
    case False
    then have t: "\<And>n. n \<in> set cs \<Longrightarrow> tidy R n"
      using Element.prems by auto
    have n: "Control i \<notin> set cs" if "i \<in> set is" for i
    proof
      assume "Control i \<in> set cs"
      moreover from this have "i \<in> set (controlIds (Element cs))" by force
      ultimately show False using False assms that by blast
    qed
    have a: "treeFold M is (Element cs) = Element (map (treeFold M is) cs)"
      using n by (rule treeFold_apart)
    have "treeFold M is (Element (map (treeFold M is) cs)) =
          Element (map (treeFold M is) (map (treeFold M is) cs))"
      using n by (intro treeFold_apart) simp
    also have "map (treeFold M is) (map (treeFold M is) cs) = map (treeFold M is) cs"
      using Element.IH t by simp
    finally show ?thesis by (simp only: a)
  qed
qed

lemma validateFields_frame:
  "validateFields is s =
     s\<lparr>ctl := ctl (validateFields is s), form := form (validateFields is s)\<rparr>"
proof (induction "is" arbitrary: s)
  case Nil
  then show ?case by simp
next
  case (Cons i "is")
  let ?s' = "snd (validateField i s)"
  have "validateFields is ?s' =
        ?s'\<lparr>ctl := ctl (validateFields is ?s'), form := form (validateFields is ?s')\<rparr>"
    by (rule Cons.IH)
  also have "\<dots> = s\<lparr>ctl := ctl (validateFields is ?s'), form := form (validateFields is ?s')\<rparr>"
    by (subst validateField_frame) simp
  finally show ?case by simp
qed

lemma requiredFields_validateFields:
  "requiredFields (validateFields is s) = requiredFields s"
  by (simp add: requiredFields_def form_validateFields ctl_validateFields cong: filter_cong)

text \<open>
  C8, as the spec states it, fails. \<open>clearFieldError\<close> takes away the first
  \<open>.field-error\<close> element anywhere below the field's parent, which need not be the
  field's own. On the page below the first required field is a child of the form
  element and the second sits in an element of its own; both are empty. The first call
  of \<open>validateForm\<close> shows one message for each. In the second call the first field's
  clearing finds the second field's message first (it comes earlier in the document),
  so its own message stays and is appended once more: it is on the page twice, with no
  field value changed.
\<close>

theorem C8_counterexample:
  "form nestedPage =
     Element [Control 0, Element [Control 1], Element [Control 2], Element [Control 3]] \<and>
   form (snd (validateForm nestedPage)) =
     Element [Control 0, Element [Control 1, FieldError ''This field is required''],
              Element [Control 2], Element [Control 3],
              FieldError ''This field is required''] \<and>
   form (snd (validateForm (snd (validateForm nestedPage)))) =
     Element [Control 0, Element [Control 1, FieldError ''This field is required''],
              Element [Control 2], Element [Control 3],
              FieldError ''This field is required'', FieldError ''This field is required''] \<and>
   map (\<lambda>i. value (ctl (snd (validateForm nestedPage)) i)) [0, 1, 2, 3] =
     map (\<lambda>i. value (ctl nestedPage i)) [0, 1, 2, 3]"
  by code_simp

text \<open>
  C8, amended: \<open>validateForm\<close> is idempotent on a tidy form, that is, when every
  element that has a required control among its children holds at most one
  \<open>.field-error\<close> element below it and has every required control below it as a child
  (as with one wrapping element per field and no error element in the markup). Then a
  second call with unchanged field values returns the same verdict and leaves the page
  exactly as the first call left it, whether the fields are valid or not: no message is
  duplicated and none is lost.
\<close>

theorem C8_validateForm_idempotent_on_tidy_forms:
  assumes "tidy (\<lambda>i. required (ctl s i)) (form s)"
  shows "validateForm (snd (validateForm s)) = validateForm s"
proof -
  let ?is = "requiredFields s"
  let ?M = "\<lambda>i. fieldMessage (ctl s i)"
  let ?s1 = "validateFields ?is s"
  have r: "requiredFields ?s1 = ?is"
    by (rule requiredFields_validateFields)
  have c: "ctl (validateFields ?is ?s1) = ctl ?s1"
    by (rule ext) (simp add: ctl_validateFields)
  have "form (validateFields ?is ?s1) = treeFold ?M ?is (treeFold ?M ?is (form s))"
    by (simp add: form_validateFields)
  also have "\<dots> = treeFold ?M ?is (form s)"
    using assms by (intro treeFold_idem[where R = "\<lambda>i. required (ctl s i)"])
      (simp_all add: requiredFields_required)
  finally have f: "form (validateFields ?is ?s1) = form ?s1"
    by (simp add: form_validateFields)
  have "validateFields ?is ?s1 =
        ?s1\<lparr>ctl := ctl (validateFields ?is ?s1), form := form (validateFields ?is ?s1)\<rparr>"
    by (rule validateFields_frame)
  then have "validateFields ?is ?s1 = ?s1"
    by (simp only: c f) simp
  then show ?thesis
    by (simp add: validateForm_eq r)
qed

theorem C8_validateForm_idempotent_on_tidy_forms_witness:
  "tidy (\<lambda>i. required (ctl (examplePage [] ''x@y'' []) i)) (form (examplePage [] ''x@y'' [])) \<and>
   \<not> fst (validateForm (examplePage [] ''x@y'' [])) \<and>
   form (snd (validateForm (examplePage [] ''x@y'' []))) =
     Element [Element [Control 0, FieldError ''This field is required''],
              Element [Control 1, FieldError ''Please enter a valid email address''],
              Element [Control 2], Element [Control 3]] \<and>
   validateForm (snd (validateForm (examplePage [] ''x@y'' []))) =
     validateForm (examplePage [] ''x@y'' [])"
proof -
  let ?p = "examplePage [] ''x@y'' []"
  have h: "tidy (\<lambda>i. required (ctl ?p i)) (form ?p)"
    by code_simp
  have v: "\<not> fst (validateForm ?p)"
    by code_simp
  have f: "form (snd (validateForm ?p)) =
     Element [Element [Control 0, FieldError ''This field is required''],
              Element [Control 1, FieldError ''Please enter a valid email address''],
              Element [Control 2], Element [Control 3]]"
    by code_simp
  show ?thesis
    using h v f C8_validateForm_idempotent_on_tidy_forms [OF h] by blast
qed

lemma firstSome_map_option:
  "firstSome (map (\<lambda>c. map_option f (g c)) cs) = map_option f (firstSome (map g cs))"
proof (induction cs)
  case (Cons c cs)
  then show ?case by (cases "g c") simp_all
qed simp

lemma firstSome_all_None: "\<forall>r\<in>set rs. r = None \<Longrightarrow> firstSome rs = None"
  by (induction rs rule: firstSome.induct) auto

lemma firstSome_Some: "firstSome rs = Some x \<Longrightarrow> Some x \<in> set rs"
  by (induction rs rule: firstSome.induct) auto

lemma parentChildren_absent: "i \<notin> set (controlIds t) \<Longrightarrow> parentChildren i t = None"
proof (induction t)
  case (Element cs)
  have "Control i \<notin> set cs" using Element.prems by force
  moreover have "firstSome (map (parentChildren i) cs) = None"
    using Element by (intro firstSome_all_None) auto
  ultimately show ?case by simp
qed simp_all

lemma parentChildren_treeFold:
  assumes "\<And>j. j \<in> set is \<Longrightarrow> R j" and "R i"
  shows "tidy R t \<Longrightarrow>
         parentChildren i (treeFold M is t) =
           map_option (\<lambda>cs. fold (\<lambda>j. fieldStep (M j)) (filter (\<lambda>j. Control j \<in> set cs) is) cs)
             (parentChildren i t)"
proof (induction t)
  case (Control k)
  then show ?case by simp
next
  case (FieldError m)
  then show ?case by simp
next
  case (Element cs)
  show ?case
  proof (cases "\<exists>i\<in>set (controlIds (Element cs)). R i \<and> Control i \<in> set cs")
    case True
    then have d: "\<And>i. i \<in> set (concat (map controlIds cs)) \<Longrightarrow> R i \<Longrightarrow> Control i \<in> set cs"
      using Element.prems by auto
    let ?js = "filter (\<lambda>i. Control i \<in> set cs) is"
    let ?cs' = "fold (\<lambda>i. fieldStep (M i)) ?js cs"
    have a: "treeFold M is (Element cs) = Element ?cs'"
      using d assms by (intro treeFold_group) auto
    show ?thesis
    proof (cases "Control i \<in> set cs")
      case True
      then show ?thesis by (simp add: a)
    next
      case False
      then have n: "i \<notin> set (controlIds (Element cs))"
        using d assms(2) by auto
      then have "i \<notin> set (controlIds (Element ?cs'))"
        by simp
      then have "parentChildren i (Element ?cs') = None"
        by (rule parentChildren_absent)
      moreover have "parentChildren i (Element cs) = None"
        using n by (rule parentChildren_absent)
      ultimately show ?thesis by (simp only: a) simp
    qed
  next
    case False
    then have t: "\<And>n. n \<in> set cs \<Longrightarrow> tidy R n"
      using Element.prems by auto
    have n: "Control j \<notin> set cs" if "R j" for j
    proof
      assume "Control j \<in> set cs"
      moreover from this have "j \<in> set (controlIds (Element cs))" by force
      ultimately show False using False that by blast
    qed
    have a: "treeFold M is (Element cs) = Element (map (treeFold M is) cs)"
      using n assms(1) by (intro treeFold_apart) auto
    let ?F = "\<lambda>cs. fold (\<lambda>j. fieldStep (M j)) (filter (\<lambda>j. Control j \<in> set cs) is) cs"
    have m: "map (\<lambda>c. parentChildren i (treeFold M is c)) cs =
          map (\<lambda>c. map_option ?F (parentChildren i c)) cs"
      using Element.IH t by (intro map_cong) auto
    show ?thesis
      using n[OF assms(2)] by (simp add: a comp_def m firstSome_map_option)
  qed
qed

lemma parentChildren_tidy:
  assumes "R i"
  shows "tidy R t \<Longrightarrow> parentChildren i t = Some cs \<Longrightarrow> sum_list (map errorCount cs) \<le> 1"
proof (induction t)
  case (Element ds)
  show ?case
  proof (cases "Control i \<in> set ds")
    case True
    then have "i \<in> set (controlIds (Element ds))" by force
    then have "\<exists>i\<in>set (controlIds (Element ds)). R i \<and> Control i \<in> set ds"
      using True assms by blast
    then have "sum_list (map errorCount ds) \<le> 1"
      using Element.prems(1) by simp
    then show ?thesis using True Element.prems(2) by simp
  next
    case False
    then have f: "firstSome (map (parentChildren i) ds) = Some cs"
      using Element.prems(2) by simp
    then obtain n where n: "n \<in> set ds" "parentChildren i n = Some cs"
      using firstSome_Some[OF f] by auto
    have "i \<in> set (controlIds n)"
      using n(2) parentChildren_absent[of i n] by force
    then have b: "i \<in> set (controlIds (Element ds))"
      using n(1) by auto
    have "\<not> (\<exists>i\<in>set (controlIds (Element ds)). R i \<and> Control i \<in> set ds)"
    proof
      assume "\<exists>i\<in>set (controlIds (Element ds)). R i \<and> Control i \<in> set ds"
      then have "\<forall>i\<in>set (controlIds (Element ds)). R i \<longrightarrow> Control i \<in> set ds"
        using Element.prems(1) by simp
      then show False using b assms False by blast
    qed
    then have "tidy R n"
      using Element.prems(1) n(1) by simp
    then show ?thesis
      using Element.IH n by blast
  qed
qed simp_all

lemma errorTexts_purge_all: "concat (map errorTexts (concat (map purge cs))) = []"
proof -
  have "errorTexts n' = []" if "n' \<in> set (purge n)" for n n'
    using that by (induction n arbitrary: n') auto
  then show ?thesis by auto
qed

lemma errorsBeside_validateForm:
  assumes "tidy (\<lambda>j. required (ctl s j)) (form s)" and "i \<in> set (requiredFields s)"
    and "lastRequiredOfParent i s"
  shows "errorsBeside i (form (snd (validateForm s))) =
           Some (case fieldMessage (ctl s i) of None \<Rightarrow> [] | Some message \<Rightarrow> [message])"
proof -
  let ?R = "\<lambda>j. required (ctl s j)"
  let ?M = "\<lambda>j. fieldMessage (ctl s j)"
  let ?is = "requiredFields s"
  obtain cs where cs: "parentChildren i (form s) = Some cs"
    using assms(3) by (auto simp: lastRequiredOfParent_def split: option.splits)
  let ?js = "filter (\<lambda>j. Control j \<in> set cs) ?is"
  have l: "?js \<noteq> [] \<and> last ?js = i"
    using assms(3) cs
    by (auto simp: lastRequiredOfParent_def last_rev[symmetric] simp del: last_rev
        split: list.splits)
  have e: "sum_list (map errorCount cs) \<le> 1"
    using parentChildren_tidy[of ?R i "form s" cs] assms cs
    by (simp add: requiredFields_required)
  have "parentChildren i (treeFold ?M ?is (form s)) =
          Some (fold (\<lambda>j. fieldStep (?M j)) ?js cs)"
    using parentChildren_treeFold[of ?is ?R i "form s" ?M] assms cs
    by (simp add: requiredFields_required)
  also have "fold (\<lambda>j. fieldStep (?M j)) ?js cs =
          concat (map purge cs) @
           (case ?M i of None \<Rightarrow> [] | Some message \<Rightarrow> [FieldError message])"
    using fold_fieldStep_tidy[OF e, of ?js ?M] l by simp
  finally show ?thesis
    by (cases "?M i")
      (simp_all add: errorsBeside_def validateForm_eq form_validateFields errorTexts_purge_all)
qed

section \<open>A submit attempt on an invalid form\<close>

text \<open>
  C5, as the spec states it, fails in its middle part: the message of an offending
  field is not always on the page afterwards. \<open>clearFieldError\<close> takes away the first
  \<open>.field-error\<close> element below the field's parent, whichever field it belongs to. On
  the page below the two required fields share their parent; the first is empty, the
  second valid. The first field's message is appended, and then taken away again when the
  second field is validated: after the submit attempt the first field has the class
  \<open>error\<close> and no message stands on the page. The rest of the claim holds there:
  no call is made and the notification is shown.
\<close>

theorem C5_counterexample:
  "form rowPage =
     Element [Element [Control 0, Control 1], Element [Control 2], Element [Control 3]] \<and>
   requiredFields rowPage = [0, 1] \<and>
   fst (validateForm rowPage) = False \<and>
   fst (validateField 0 rowPage) = False \<and>
   fst (validateField 1 rowPage) = True \<and>
   form (snd (validateField 0 rowPage)) =
     Element [Element [Control 0, Control 1, FieldError ''This field is required''],
              Element [Control 2], Element [Control 3]] \<and>
   form (handleSubmit rowPage) =
     Element [Element [Control 0, Control 1], Element [Control 2], Element [Control 3]] \<and>
   errorsBeside 0 (form (handleSubmit rowPage)) = Some [] \<and>
   errorClass (ctl (handleSubmit rowPage) 0) = True \<and>
   apiCalls (handleSubmit rowPage) = [] \<and>
   notifications (handleSubmit rowPage) = [(''Please fix the errors above'', ''error'')]"
  by code_simp

text \<open>
  C5, amended: when \<open>validateForm\<close> returns false, \<open>handleSubmit\<close> returns before the
  \<open>try\<close> block: \<open>submitToAPI\<close> is not called and nothing is left pending, the one
  notification \<open>Please fix the errors above\<close> of type \<open>error\<close> is appended, nothing is
  logged as an error, and the button and the dialog are untouched. Some required field is
  invalid, and every required field that is invalid carries the class \<open>error\<close>
  afterwards. Its message is on the page afterwards, as the one message below its
  parent, when the form is tidy and the field is the last required control among the
  children of its parent, as every field is that has a wrapping element of its own.
\<close>

theorem C5_invalid_form_not_submitted:
  assumes "\<not> fst (validateForm s)"
  shows "apiCalls (handleSubmit s) = apiCalls s \<and>
         pending (handleSubmit s) = pending s \<and>
         notifications (handleSubmit s) =
           notifications s @ [(''Please fix the errors above'', ''error'')] \<and>
         consoleErrors (handleSubmit s) = consoleErrors s \<and>
         submitButton (handleSubmit s) = submitButton s \<and>
         successModal (handleSubmit s) = successModal s \<and>
         (\<exists>i\<in>set (requiredFields s). \<not> fst (validateField i s)) \<and>
         (\<forall>i\<in>set (requiredFields s).
            \<not> fst (validateField i s) \<longrightarrow> errorClass (ctl (handleSubmit s) i)) \<and>
         (tidy (\<lambda>j. required (ctl s j)) (form s) \<longrightarrow>
            (\<forall>i\<in>set (requiredFields s).
               \<not> fst (validateField i s) \<longrightarrow> lastRequiredOfParent i s \<longrightarrow>
               (\<exists>message. fieldMessage (ctl s i) = Some message \<and>
                  errorsBeside i (form (handleSubmit s)) = Some [message])))"
proof -
  have e: "handleSubmit s =
           showNotification ''Please fix the errors above'' ''error'' (snd (validateForm s))"
    using assms by (rule handleSubmit_invalid)
  have a: "apiCalls (handleSubmit s) = apiCalls s" "pending (handleSubmit s) = pending s"
    "notifications (handleSubmit s) =
       notifications s @ [(''Please fix the errors above'', ''error'')]"
    "consoleErrors (handleSubmit s) = consoleErrors s"
    "submitButton (handleSubmit s) = submitButton s"
    "successModal (handleSubmit s) = successModal s"
    by (simp_all add: e showNotification_def validateForm_others)
  have b: "\<exists>i\<in>set (requiredFields s). \<not> fst (validateField i s)"
    using assms by (simp add: validateForm_eq list_all_iff fst_validateField)
  have c: "errorClass (ctl (handleSubmit s) i)"
    if "i \<in> set (requiredFields s)" and "\<not> fst (validateField i s)" for i
    using that by (simp add: e showNotification_def validateForm_eq ctl_validateFields
        fst_validateField)
  have d: "\<exists>message. fieldMessage (ctl s i) = Some message \<and>
             errorsBeside i (form (handleSubmit s)) = Some [message]"
    if t: "tidy (\<lambda>j. required (ctl s j)) (form s)" and i: "i \<in> set (requiredFields s)"
      and v: "\<not> fst (validateField i s)" and l: "lastRequiredOfParent i s" for i
  proof -
    obtain message where m: "fieldMessage (ctl s i) = Some message"
      using v by (auto simp: fst_validateField)
    have "form (handleSubmit s) = form (snd (validateForm s))"
      by (simp add: e showNotification_def)
    then have "errorsBeside i (form (handleSubmit s)) = Some [message]"
      using errorsBeside_validateForm[OF t i l] m by simp
    then show ?thesis using m by blast
  qed
  show ?thesis using a b c d by blast
qed

theorem C5_invalid_form_not_submitted_witness:
  "\<not> fst (validateForm (examplePage [] ''x@y.com'' [])) \<and>
   apiCalls (handleSubmit (examplePage [] ''x@y.com'' [])) = [] \<and>
   notifications (handleSubmit (examplePage [] ''x@y.com'' [])) =
     [(''Please fix the errors above'', ''error'')] \<and>
   0 \<in> set (requiredFields (examplePage [] ''x@y.com'' [])) \<and>
   \<not> fst (validateField 0 (examplePage [] ''x@y.com'' [])) \<and>
   errorClass (ctl (handleSubmit (examplePage [] ''x@y.com'' [])) 0) \<and>
   tidy (\<lambda>j. required (ctl (examplePage [] ''x@y.com'' []) j))
     (form (examplePage [] ''x@y.com'' [])) \<and>
   lastRequiredOfParent 0 (examplePage [] ''x@y.com'' []) \<and>
   errorsBeside 0 (form (handleSubmit (examplePage [] ''x@y.com'' []))) =
     Some [''This field is required'']"
proof -
  let ?s = "examplePage [] ''x@y.com'' []"
  have h: "\<not> fst (validateForm ?s)" by code_simp
  have r: "0 \<in> set (requiredFields ?s)" by code_simp
  have v: "\<not> fst (validateField 0 ?s)" by code_simp
  have t: "tidy (\<lambda>j. required (ctl ?s j)) (form ?s)" by code_simp
  have l: "lastRequiredOfParent 0 ?s" by code_simp
  have m: "fieldMessage (ctl ?s 0) = Some ''This field is required''" by code_simp
  have i: "apiCalls ?s = []" "notifications ?s = []" by (simp_all add: examplePage_def)
  from C5_invalid_form_not_submitted [OF h]
  have "apiCalls (handleSubmit ?s) = apiCalls ?s"
    and "notifications (handleSubmit ?s) =
           notifications ?s @ [(''Please fix the errors above'', ''error'')]"
    and "\<forall>i\<in>set (requiredFields ?s).
            \<not> fst (validateField i ?s) \<longrightarrow> errorClass (ctl (handleSubmit ?s) i)"
    and "tidy (\<lambda>j. required (ctl ?s j)) (form ?s) \<longrightarrow>
            (\<forall>i\<in>set (requiredFields ?s).
               \<not> fst (validateField i ?s) \<longrightarrow> lastRequiredOfParent i ?s \<longrightarrow>
               (\<exists>message. fieldMessage (ctl ?s i) = Some message \<and>
                  errorsBeside i (form (handleSubmit ?s)) = Some [message]))"
    by blast+
  then have "apiCalls (handleSubmit ?s) = []"
    and "notifications (handleSubmit ?s) = [(''Please fix the errors above'', ''error'')]"
    and "errorClass (ctl (handleSubmit ?s) 0)"
    and "errorsBeside 0 (form (handleSubmit ?s)) = Some [''This field is required'']"
    using r v t l m i by auto
  then show ?thesis using h r v t l by blast
qed

section \<open>Overlapping submissions\<close>

lemma requiredFields_handleSubmit: "requiredFields (handleSubmit s) = requiredFields s"
proof -
  have "form (handleSubmit s) = form (snd (validateForm s))"
    and "ctl (handleSubmit s) = ctl (snd (validateForm s))"
    by (cases "fst (validateForm s)";
        simp add: handleSubmit_valid handleSubmit_invalid Let_def setLoadingState_others
          showNotification_def)+
  then have "requiredFields (handleSubmit s) = requiredFields (snd (validateForm s))"
    by (simp add: requiredFields_def)
  then show ?thesis
    by (simp add: validateForm_eq requiredFields_validateFields)
qed

lemma validateForm_handleSubmit: "fst (validateForm (handleSubmit s)) = fst (validateForm s)"
proof -
  have "ctl (handleSubmit s) = ctl (snd (validateForm s))"
    by (cases "fst (validateForm s)";
        simp add: handleSubmit_valid handleSubmit_invalid Let_def setLoadingState_others
          showNotification_def)
  then have "fieldMessage (ctl (handleSubmit s) i) = fieldMessage (ctl s i)" for i
    by (simp add: validateForm_eq)
  then show ?thesis
    by (simp add: validateForm_eq requiredFields_handleSubmit)
qed

text \<open>
  C1, as the spec states it, fails: \<open>handleSubmit\<close> reads no flag and no state before
  it validates and calls \<open>submitToAPI\<close>. On a valid form, a second submit event handled
  while the first call is still pending (\<open>pending\<close> is 1) makes a second call, and when
  both calls reject there are two error notifications: two terminal transitions.
\<close>

theorem C1_counterexample:
  "pending (run [Submit] (examplePage ''Ann'' ''x@y.com'' [])) = 1 \<and>
   length (apiCalls (run [Submit] (examplePage ''Ann'' ''x@y.com'' []))) = 1 \<and>
   length (apiCalls (run [Submit, Submit] (examplePage ''Ann'' ''x@y.com'' []))) = 2 \<and>
   pending (run [Submit, Submit] (examplePage ''Ann'' ''x@y.com'' [])) = 2 \<and>
   length (notifications
     (run [Submit, Submit, Settle Rejected, Settle Rejected]
        (examplePage ''Ann'' ''x@y.com'' []))) = 2"
  by code_simp

text \<open>
  C1, amended: \<open>handleSubmit\<close> has no re-entrancy guard of its own. A submit handled
  while an earlier submission is unresolved runs like any other. On every page whose
  form validates, one submit event makes one call of \<open>submitToAPI\<close> and leaves one
  more submission pending; a second submit event handled before anything settles makes a
  second call and leaves two more pending; and each settlement ends one pending
  submission without a further call, so there are as many terminal transitions as
  calls. What stands against a second submit is only that the button, when the form has
  one, is disabled while the busy label shows.
\<close>

theorem C1_no_reentrancy_guard:
  assumes "fst (validateForm s)"
  shows "length (apiCalls (run [Submit] s)) = length (apiCalls s) + 1 \<and>
         pending (run [Submit] s) = pending s + 1 \<and>
         submitButton (run [Submit] s) =
           map_option (\<lambda>b. \<lparr>disabled = True, innerHTML = processingLabel\<rparr>) (submitButton s) \<and>
         length (apiCalls (run [Submit, Submit] s)) = length (apiCalls s) + 2 \<and>
         pending (run [Submit, Submit] s) = pending s + 2 \<and>
         apiCalls (handleSubmit_resume out s') = apiCalls s' \<and>
         pending (handleSubmit_resume out s') = pending s' - 1"
proof -
  have one: "length (apiCalls (handleSubmit t)) = length (apiCalls t) + 1 \<and>
             pending (handleSubmit t) = pending t + 1 \<and>
             submitButton (handleSubmit t) =
               map_option (\<lambda>b. \<lparr>disabled = True, innerHTML = processingLabel\<rparr>) (submitButton t)"
    if "fst (validateForm t)" for t
    using that
    by (simp add: handleSubmit_valid Let_def setLoadingState_others validateForm_others
        submitButton_setLoadingState button_overwritten)
  have v: "fst (validateForm (handleSubmit s))"
    using assms by (simp add: validateForm_handleSubmit)
  show ?thesis
    using one[OF assms] one[OF v]
    by (simp add: run_def handleSubmit_resume_others)
qed

theorem C1_no_reentrancy_guard_witness:
  "fst (validateForm (examplePage ''Ann'' ''x@y.com'' [])) \<and>
   pending (run [Submit] (examplePage ''Ann'' ''x@y.com'' [])) = 1 \<and>
   length (apiCalls (run [Submit, Submit] (examplePage ''Ann'' ''x@y.com'' []))) = 2 \<and>
   pending (run [Submit, Submit] (examplePage ''Ann'' ''x@y.com'' [])) = 2"
proof -
  let ?s = "examplePage ''Ann'' ''x@y.com'' []"
  have h: "fst (validateForm ?s)" by code_simp
  have i: "apiCalls ?s = []" "pending ?s = 0" by (simp_all add: examplePage_def)
  show ?thesis
    using C1_no_reentrancy_guard [OF h] h i by simp
qed

end
